theory Spec2Isabelle
  imports Main "HOL-Library.Multiset"
begin

section \<open>Data model\<close>

text \<open>
  Python strings are modelled as \<open>string\<close> (lists of 8-bit characters), Python's
  unbounded integers as \<open>int\<close>, \<open>Optional[str]\<close> as \<open>string option\<close> with \<open>None\<close>
  for Python's \<open>None\<close>.
\<close>

definition nl :: string where
  "nl = [CHR 0x0A]"

definition quote :: string where
  "quote = [CHR 0x27]"

text \<open>\<open>str(n)\<close> for a non-negative integer: its decimal digits.\<close>

fun str_nat :: "nat \<Rightarrow> string" where
  "str_nat n = (if n < 10 then [''0123456789'' ! n]
                else str_nat (n div 10) @ [''0123456789'' ! (n mod 10)])"

declare str_nat.simps [simp del]


text \<open>
  The truth value Python gives an optional string in a condition: \<open>None\<close> and the empty
  string are false.
\<close>

definition truthy :: "string option \<Rightarrow> bool" where
  "truthy v = (case v of None \<Rightarrow> False | Some s \<Rightarrow> s \<noteq> [])"

text \<open>
  \<open>s.strip()\<close>: the characters Python counts as whitespace among the first 256 code points
  are removed at both ends.
\<close>

definition is_space :: "char \<Rightarrow> bool" where
  "is_space c = (c \<in> set [CHR 0x09, CHR 0x0A, CHR 0x0B, CHR 0x0C, CHR 0x0D, CHR 0x1C, CHR 0x1D,
                            CHR 0x1E, CHR 0x1F, CHR 0x20, CHR 0x85, CHR 0xA0])"

definition py_strip :: "string \<Rightarrow> string" where
  "py_strip s = rev (dropWhile is_space (rev (dropWhile is_space s)))"

text \<open>
  Modelled from the spec: the class \<open>Section\<close> is declared in \<open>state.py\<close>, which is not
  among the sources. The fields are those the code reads and writes
  (\<open>s.name\<close>, \<open>s.description\<close>, \<open>s.research\<close>, \<open>s.content\<close>); the spec's data model gives
  their types, \<open>content\<close> being an optional string.
\<close>

record Section =
  name :: string
  description :: string
  research :: bool
  content :: "string option"

text \<open>
  Modelled from the spec: \<open>ReportState\<close> is declared in \<open>state.py\<close> as well. The fields
  are the keys the graph nodes of \<open>multi_agent.py\<close> read or update. A key read with
  \<open>state.get(key, [])\<close> is a list that is empty when the key is absent.
\<close>

record ReportState =
  topic :: string
  feedback_on_report_plan :: "string list"
  sections :: "Section list"
  completed_sections :: "Section list"
  report_sections_from_research :: string
  final_report :: "string option"

section \<open>The compiler: \<open>compile_final_report_node\<close>\<close>

text \<open>
  \<open>{s.name: s.content for s in completed_sections}\<close>: a dictionary filled from left to
  right, a later section replacing an earlier one of the same name.
\<close>

definition completed_content_map :: "Section list \<Rightarrow> (string \<rightharpoonup> string option)" where
  "completed_content_map cs = fold (\<lambda>s m. m(name s \<mapsto> content s)) cs Map.empty"

definition not_found_text :: "string \<Rightarrow> string" where
  "not_found_text n = ''[Content for section '' @ quote @ n @ quote @ '' not found/completed]''"

definition is_none_text :: "string \<Rightarrow> string" where
  "is_none_text n = ''[Content for section '' @ quote @ n @ quote @ '' is None]''"

text \<open>The body of the loop: the text appended to \<open>final_report_parts\<close> for one planned section.\<close>

definition report_part :: "(string \<rightharpoonup> string option) \<Rightarrow> Section \<Rightarrow> string" where
  "report_part m planned_section =
     (let content = (case m (name planned_section) of
                       Some c \<Rightarrow> c
                     | None \<Rightarrow> Some (not_found_text (name planned_section)));
          content_str = (case content of
                           Some c \<Rightarrow> c
                         | None \<Rightarrow> is_none_text (name planned_section))
      in ''## '' @ name planned_section @ nl @ nl @ content_str)"

fun compile_loop :: "(string \<rightharpoonup> string option) \<Rightarrow> Section list \<Rightarrow> string list \<Rightarrow> string list" where
  "compile_loop m [] parts = parts"
| "compile_loop m (p # ps) parts = compile_loop m ps (parts @ [report_part m p])"

text \<open>\<open>sep.join(parts)\<close>\<close>

fun join :: "string \<Rightarrow> string list \<Rightarrow> string" where
  "join sep [] = []"
| "join sep [x] = x"
| "join sep (x # y # ys) = x @ sep @ join sep (y # ys)"

definition final_report_parts :: "ReportState \<Rightarrow> string list" where
  "final_report_parts state =
     compile_loop (completed_content_map (completed_sections state)) (sections state) []"

text \<open>The node returns the update \<open>{"final_report": full_report}\<close>; the model returns \<open>full_report\<close>.\<close>

definition compile_final_report_node :: "ReportState \<Rightarrow> string" where
  "compile_final_report_node state = join (nl @ nl) (final_report_parts state)"

section \<open>The research context: \<open>format_sections\<close> and \<open>gather_completed_sections_node\<close>\<close>





section \<open>The section research loop\<close>

text \<open>
  Modelled from the spec: \<open>Feedback\<close> and \<open>SectionState\<close> are declared in \<open>state.py\<close>.
  \<open>Feedback\<close> has the grade (\<open>"pass"\<close> or \<open>"fail"\<close>) and the follow-up queries; a search
  query is represented by its text. The fields of \<open>SectionState\<close> are the keys the nodes of
  the section graph read and update; \<open>st_topic\<close> and \<open>st_section\<close> stand for the keys
  \<open>"topic"\<close> and \<open>"section"\<close>.
\<close>

datatype grade = Pass | Fail

record Feedback =
  grade :: grade
  follow_up_queries :: "string list"

record SectionState =
  st_topic :: string
  st_section :: Section
  search_iterations :: int
  search_queries :: "string list"
  source_str :: string

text \<open>
  The language model and the search provider are outside the program. Each call is a
  function of the state in which it is made and either raises (\<open>Inl\<close>, with the message of
  the exception) or returns (\<open>Inr\<close>). Since \<open>search_iterations\<close> differs from round to
  round, such a function can give a different answer in every round.
\<close>

record gateways =
  query_writer :: "SectionState \<Rightarrow> string + string list"
  web_search :: "SectionState \<Rightarrow> string + string"
  section_writer :: "SectionState \<Rightarrow> string + string"
  section_grader :: "SectionState \<Rightarrow> string + Feedback"

text \<open>\<open>generate_queries_node\<close> returns the update \<open>{"search_queries": queries}\<close>.\<close>

definition generate_queries_node :: "gateways \<Rightarrow> SectionState \<Rightarrow> string + SectionState" where
  "generate_queries_node gw state =
     (case query_writer gw state of
        Inl e \<Rightarrow> Inl e
      | Inr queries \<Rightarrow> Inr (state\<lparr>search_queries := queries\<rparr>))"

text \<open>
  \<open>search_web_node\<close> returns the update
  \<open>{"source_str": source_str, "search_iterations": state["search_iterations"] + 1}\<close>.
\<close>

definition search_web_node :: "gateways \<Rightarrow> SectionState \<Rightarrow> string + SectionState" where
  "search_web_node gw state =
     (case web_search gw state of
        Inl e \<Rightarrow> Inl e
      | Inr src \<Rightarrow>
          Inr (state\<lparr>source_str := src, search_iterations := search_iterations state + 1\<rparr>))"

text \<open>
  \<open>write_section_node\<close> returns a \<open>Command\<close>: either the update
  \<open>{"completed_sections": [section]}\<close> with \<open>goto=END\<close>, or the update
  \<open>{"search_queries": follow_up_queries, "section": section}\<close> with \<open>goto="search_web"\<close>.
  The assignment \<open>section.content = ...\<close> changes the section held by the state, so both
  commands carry the state with the written section; the grader is asked about that state.
\<close>

datatype section_command =
    Goto_END SectionState "Section list"
  | Goto_search_web SectionState

definition write_section_node ::
  "gateways \<Rightarrow> int \<Rightarrow> SectionState \<Rightarrow> string + section_command" where
  "write_section_node gw max_search_depth state =
     (case section_writer gw state of
        Inl e \<Rightarrow> Inl e
      | Inr text \<Rightarrow>
          (let section = (st_section state)\<lparr>content := Some text\<rparr>;
               written = state\<lparr>st_section := section\<rparr>
           in case section_grader gw written of
                Inl e \<Rightarrow> Inl e
              | Inr feedback_result \<Rightarrow>
                  if grade feedback_result = Pass \<or> search_iterations state \<ge> max_search_depth
                  then Inr (Goto_END written [section])
                  else Inr (Goto_search_web
                              (written\<lparr>search_queries := follow_up_queries feedback_result\<rparr>))))"

text \<open>
  A run of the section graph: the state in which it stopped, what it produced (the
  exception that ended it, or the sections emitted to \<open>completed_sections\<close> at \<open>END\<close>) and
  the nodes it entered, in order.
\<close>

datatype node = generate_queries | search_web | write_section

record run =
  final_state :: SectionState
  produced :: "string + Section list"
  visited :: "node list"

text \<open>
  The edges \<open>search_web \<rightarrow> write_section\<close> and the command of \<open>write_section\<close>:
  the part of the graph that can repeat.
\<close>

function research_loop :: "gateways \<Rightarrow> int \<Rightarrow> SectionState \<Rightarrow> node list \<Rightarrow> run" where
  "research_loop gw max_search_depth state seen =
     (case search_web_node gw state of
        Inl e \<Rightarrow> \<lparr>final_state = state, produced = Inl e, visited = seen @ [search_web]\<rparr>
      | Inr searched \<Rightarrow>
          (case write_section_node gw max_search_depth searched of
             Inl e \<Rightarrow> \<lparr>final_state = searched, produced = Inl e,
                        visited = seen @ [search_web, write_section]\<rparr>
           | Inr (Goto_END fin completed) \<Rightarrow>
               \<lparr>final_state = fin, produced = Inr completed,
                visited = seen @ [search_web, write_section]\<rparr>
           | Inr (Goto_search_web again) \<Rightarrow>
               research_loop gw max_search_depth again (seen @ [search_web, write_section])))"
  by pat_completeness auto

lemma search_web_node_iterations:
  "search_web_node gw s = Inr s' \<Longrightarrow> search_iterations s' = search_iterations s + 1"
  by (auto simp: search_web_node_def split: sum.splits)

lemma write_section_node_again:
  "write_section_node gw d s = Inr (Goto_search_web s') \<Longrightarrow>
     search_iterations s' = search_iterations s \<and> search_iterations s < d"
  by (auto simp: write_section_node_def Let_def split: sum.splits if_splits)

termination research_loop
proof (relation "measure (\<lambda>(gw, d, s, seen). nat (d - search_iterations s))")
  show "wf (measure (\<lambda>(gw, d, s, seen). nat (d - search_iterations s)))"
    by simp
next
  fix gw :: gateways and d :: int and s searched again :: SectionState
    and seen :: "node list" and c :: section_command
  assume "search_web_node gw s = Inr searched"
    and "write_section_node gw d searched = Inr c"
    and "c = Goto_search_web again"
  then have "search_iterations again = search_iterations s + 1" "search_iterations s + 1 < d"
    using search_web_node_iterations write_section_node_again by fastforce+
  then show "((gw, d, again, seen @ [search_web, write_section]), (gw, d, s, seen))
               \<in> measure (\<lambda>(gw, d, s, seen). nat (d - search_iterations s))"
    by simp
qed

declare research_loop.simps [simp del]

text \<open>
  The section graph from its start: \<open>START \<rightarrow> generate_queries \<rightarrow> search_web\<close>, then the
  loop. \<open>max_search_depth\<close> is the value of the resolved configuration.
\<close>

definition build_section_with_web_research :: "gateways \<Rightarrow> int \<Rightarrow> SectionState \<Rightarrow> run" where
  "build_section_with_web_research gw max_search_depth state =
     (case generate_queries_node gw state of
        Inl e \<Rightarrow> \<lparr>final_state = state, produced = Inl e, visited = [generate_queries]\<rparr>
      | Inr queried \<Rightarrow> research_loop gw max_search_depth queried [generate_queries])"

section \<open>The approval gate and the fan-out: \<open>human_feedback_node\<close>\<close>

text \<open>
  \<open>Send("build_section_with_web_research", {"topic": topic, "section": s,
  "search_iterations": 0})\<close>: the node to run and the state it starts in (the keys that
  are not given are empty).
\<close>

datatype Send = Send (send_node: string) (send_arg: SectionState)

text \<open>
  What \<open>human_feedback_node\<close> can do: return \<open>Command(goto=research_tasks)\<close>, return
  \<open>Command(goto=node)\<close> or \<open>Command(goto=node, update={"feedback_on_report_plan": ...})\<close>,
  or raise \<open>TypeError\<close>.
\<close>

datatype feedback_command =
    Goto_tasks "Send list"
  | Goto_node string "string list"
  | Raise_TypeError

text \<open>The value of \<open>feedback_input\<close>: a boolean or a string.\<close>

datatype feedback_value = Bool_value bool | Str_value string

definition research_tasks :: "ReportState \<Rightarrow> Send list" where
  "research_tasks state =
     map (\<lambda>s. Send ''build_section_with_web_research''
                 \<lparr>st_topic = topic state, st_section = s, search_iterations = 0,
                  search_queries = [], source_str = []\<rparr>)
         (filter research (sections state))"

text \<open>The branches of the node on \<open>feedback_input\<close>.\<close>

definition on_feedback :: "feedback_value \<Rightarrow> ReportState \<Rightarrow> feedback_command" where
  "on_feedback feedback_input state =
     (case feedback_input of
        Bool_value True \<Rightarrow>
          (if research_tasks state \<noteq> []
           then Goto_tasks (research_tasks state)
           else Goto_node ''gather_completed_sections'' [])
      | Str_value text \<Rightarrow>
          (if py_strip text \<noteq> []
           then Goto_node ''generate_report_plan'' [text]
           else Raise_TypeError)
      | Bool_value False \<Rightarrow> Raise_TypeError)"

text \<open>The node sets \<open>feedback_input = True\<close> itself, whatever the state.\<close>

definition human_feedback_node :: "ReportState \<Rightarrow> feedback_command" where
  "human_feedback_node state = on_feedback (Bool_value True) state"

section \<open>The search layer: \<open>tavily_search_async\<close> and \<open>tavily_search\<close>\<close>

text \<open>
  One entry of \<open>results\<close> in a response of the provider. A field is \<open>None\<close> when the key is
  absent (or, for \<open>r_url\<close> and \<open>r_raw_content\<close>, holds Python's \<open>None\<close>). The score is
  not read by the program and is left out.
\<close>

record SearchResult =
  r_title :: "string option"
  r_url :: "string option"
  r_content :: "string option"
  r_raw_content :: "string option"

text \<open>
  A response for one query: the keys \<open>query\<close>, \<open>error\<close>, \<open>answer\<close> and \<open>results\<close>. The keys
  \<open>follow_up_questions\<close> and \<open>images\<close> are never read.
\<close>

record SearchResponse =
  resp_query :: string
  resp_error :: "string option"
  resp_answer :: "string option"
  resp_results :: "SearchResult list"

text \<open>
  A call \<open>tavily_async_client.search(query=query, ...)\<close> is a task that, at some time,
  raises (\<open>Inl\<close>, with the message of the exception) or returns a response (\<open>Inr\<close>).
\<close>

record search_task =
  finished_at :: nat
  outcome :: "string + SearchResponse"

text \<open>
  \<open>asyncio.gather(*tasks)\<close> without \<open>return_exceptions\<close>: the first exception raised (the
  earliest in time, the leftmost among simultaneous ones) is propagated; when no task
  raises, the results are returned in the order of the tasks.
\<close>

fun first_raised :: "search_task list \<Rightarrow> (nat \<times> string) option" where
  "first_raised [] = None"
| "first_raised (t # ts) =
     (case outcome t of
        Inr _ \<Rightarrow> first_raised ts
      | Inl e \<Rightarrow>
          (case first_raised ts of
             None \<Rightarrow> Some (finished_at t, e)
           | Some (at', e') \<Rightarrow> if at' < finished_at t then Some (at', e') else Some (finished_at t, e)))"

fun returned :: "search_task list \<Rightarrow> SearchResponse list" where
  "returned [] = []"
| "returned (t # ts) = (case outcome t of Inr r \<Rightarrow> r # returned ts | Inl _ \<Rightarrow> returned ts)"

definition gather :: "search_task list \<Rightarrow> string + SearchResponse list" where
  "gather tasks = (case first_raised tasks of Some (_, e) \<Rightarrow> Inl e | None \<Rightarrow> Inr (returned tasks))"

text \<open>The error object that the \<open>except\<close> branch builds for a query.\<close>

definition error_response :: "string \<Rightarrow> string \<Rightarrow> SearchResponse" where
  "error_response q e = \<lparr>resp_query = q, resp_error = Some e, resp_answer = None, resp_results = []\<rparr>"

text \<open>
  \<open>tavily_search_async\<close>: one task per query, gathered; \<open>client\<close> is the provider, giving
  the task of a query.
\<close>

definition tavily_search_async :: "(string \<Rightarrow> search_task) \<Rightarrow> string list \<Rightarrow> SearchResponse list" where
  "tavily_search_async client queries =
     (let search_tasks = map client queries
      in case gather search_tasks of
           Inr search_docs \<Rightarrow> search_docs
         | Inl e \<Rightarrow> map (\<lambda>q. error_response q e) queries)"

text \<open>
  The dictionary \<open>unique_results_by_url\<close> keeps its keys in the order of their insertion:
  a list of pairs. \<open>if url and url not in unique_results_by_url\<close> guards each insertion.
\<close>

fun add_results :: "SearchResult list \<Rightarrow> (string \<times> SearchResult) list \<Rightarrow> (string \<times> SearchResult) list" where
  "add_results [] unique = unique"
| "add_results (result # rest) unique =
     add_results rest
       (case r_url result of
          None \<Rightarrow> unique
        | Some url \<Rightarrow>
            if url \<noteq> [] \<and> map_of unique url = None then unique @ [(url, result)] else unique)"

text \<open>
  The first loop of \<open>tavily_search\<close> over the responses, on the pair of
  \<open>formatted_output\<close> and \<open>unique_results_by_url\<close>.
\<close>

fun scan_responses ::
  "SearchResponse list \<Rightarrow> string \<times> (string \<times> SearchResult) list \<Rightarrow> string \<times> (string \<times> SearchResult) list" where
  "scan_responses [] acc = acc"
| "scan_responses (response # rest) (formatted_output, unique) =
     (if truthy (resp_error response)
      then scan_responses rest
             (formatted_output @ ''Error for query '' @ quote @ resp_query response @ quote @ '': ''
                @ the (resp_error response) @ nl @ nl,
              unique)
      else scan_responses rest
             ((if truthy (resp_answer response)
               then formatted_output @ ''Direct Answer for query '' @ quote @ resp_query response
                      @ quote @ '': '' @ the (resp_answer response) @ nl @ nl
               else formatted_output),
              add_results (resp_results response) unique))"


text \<open>The text the second loop adds for the \<open>i\<close>-th unique result.\<close>

definition source_block :: "nat \<Rightarrow> string \<Rightarrow> SearchResult \<Rightarrow> string" where
  "source_block i url result =
     nl @ nl @ ''--- SOURCE '' @ str_nat i @ '': ''
       @ (case r_title result of Some t \<Rightarrow> t | None \<Rightarrow> ''N/A'') @ '' ---'' @ nl
     @ ''URL: '' @ url @ nl @ nl
     @ ''SUMMARY:'' @ nl @ (case r_content result of Some c \<Rightarrow> c | None \<Rightarrow> ''N/A'') @ nl @ nl
     @ (if truthy (r_raw_content result)
        then ''FULL CONTENT (preview):'' @ nl @ take 10000 (the (r_raw_content result))
               @ (if length (the (r_raw_content result)) > 10000 then ''...'' else [])
        else [])
     @ nl @ nl @ replicate 80 CHR ''-'' @ nl"

fun format_sources :: "(string \<times> SearchResult) list \<Rightarrow> nat \<Rightarrow> string \<Rightarrow> string" where
  "format_sources [] i formatted_output = formatted_output"
| "format_sources ((url, result) # rest) i formatted_output =
     format_sources rest (i + 1) (formatted_output @ source_block i url result)"

text \<open>\<open>tavily_search\<close> from the responses on: what it makes of \<open>search_responses\<close>.\<close>

definition format_search_responses :: "SearchResponse list \<Rightarrow> string" where
  "format_search_responses search_responses =
     (let (formatted_output, unique) =
            scan_responses search_responses (''Search results:'' @ nl @ nl, [])
      in if unique = [] \<and>
            \<not> list_ex (\<lambda>res. truthy (resp_answer res))
                 (filter (\<lambda>res. \<not> truthy (resp_error res)) search_responses)
         then ''No valid search results or answers found. Please try different search queries.''
         else py_strip (format_sources unique 1 formatted_output))"

definition tavily_search :: "(string \<Rightarrow> search_task) \<Rightarrow> string list \<Rightarrow> string" where
  "tavily_search client queries = format_search_responses (tavily_search_async client queries)"

section \<open>The configuration: \<open>Configuration.from_runnable_config\<close>\<close>

text \<open>
  The values a configuration field can hold: a string, an integer, \<open>None\<close>, a dictionary
  or a member of the enumeration \<open>SearchAPI\<close>.
\<close>

datatype SearchAPI = TAVILY

datatype config_value =
    VStr string
  | VInt int
  | VNone
  | VDict "(string \<times> config_value) list"
  | VEnum SearchAPI

definition DEFAULT_REPORT_STRUCTURE :: string where
  "DEFAULT_REPORT_STRUCTURE =
     ''Use this structure to create a report on the user-provided topic:'' @ nl
     @ nl
     @ ''1. Introduction (no research needed)'' @ nl
     @ ''   - Brief overview of the topic area'' @ nl
     @ nl
     @ ''2. Main Body Sections:'' @ nl
     @ ''   - Each section should focus on a sub-topic of the user-provided topic'' @ nl
     @ ''   '' @ nl
     @ ''3. Conclusion'' @ nl
     @ ''   - Aim for 1 structural element (either a list of table) that distills the main body sections '' @ nl
     @ ''   - Provide a concise summary of the report''"

text \<open>\<open>cls.model_fields\<close>: the fields of the class in the order of their declaration.\<close>

definition model_fields :: "string list" where
  "model_fields =
     [''report_structure'', ''number_of_queries'', ''max_search_depth'',
      ''planner_provider'', ''planner_model'', ''planner_model_kwargs'',
      ''writer_provider'', ''writer_model'', ''writer_model_kwargs'',
      ''search_api'', ''search_api_config'', ''supervisor_model'', ''researcher_model'']"

text \<open>The declared default of each field.\<close>

definition field_default :: "string \<rightharpoonup> config_value" where
  "field_default = map_of
     [(''report_structure'', VStr DEFAULT_REPORT_STRUCTURE),
      (''number_of_queries'', VInt 2),
      (''max_search_depth'', VInt 2),
      (''planner_provider'', VStr ''openai''),
      (''planner_model'', VStr ''gpt-4.1''),
      (''planner_model_kwargs'', VNone),
      (''writer_provider'', VStr ''openai''),
      (''writer_model'', VStr ''gpt-4.1''),
      (''writer_model_kwargs'', VNone),
      (''search_api'', VEnum TAVILY),
      (''search_api_config'', VNone),
      (''supervisor_model'', VStr ''openai:gpt-4.1''),
      (''researcher_model'', VStr ''openai:gpt-4.1'')]"

text \<open>
  \<open>field_name.upper()\<close>: the field names are ASCII identifiers, on which \<open>upper\<close> changes
  the letters \<open>a\<close> to \<open>z\<close> only.
\<close>

definition upper_char :: "char \<Rightarrow> char" where
  "upper_char c =
     (case map_of (zip ''abcdefghijklmnopqrstuvwxyz'' ''ABCDEFGHIJKLMNOPQRSTUVWXYZ'') c of
        Some u \<Rightarrow> u
      | None \<Rightarrow> c)"

definition upper :: "string \<Rightarrow> string" where
  "upper s = map upper_char s"

text \<open>
  A \<open>RunnableConfig\<close> is a dictionary, of which the method reads the key
  \<open>"configurable"\<close> only: \<open>None\<close> when the key is absent.
\<close>

record RunnableConfig =
  configurable :: "(string \<rightharpoonup> config_value) option"

text \<open>\<open>config["configurable"] if config and "configurable" in config else {}\<close>\<close>

definition configurable_of :: "RunnableConfig option \<Rightarrow> (string \<rightharpoonup> config_value)" where
  "configurable_of config =
     (case config of
        None \<Rightarrow> Map.empty
      | Some c \<Rightarrow> (case configurable c of None \<Rightarrow> Map.empty | Some d \<Rightarrow> d))"

text \<open>
  The loop that fills \<open>final_values_for_instantiation\<close>; \<open>environ\<close> is \<open>os.environ\<close>. (The
  loop before it fills \<open>values\<close>, which is never read.)
\<close>

fun final_values_loop ::
  "(string \<rightharpoonup> string) \<Rightarrow> (string \<rightharpoonup> config_value) \<Rightarrow> string list \<Rightarrow>
   (string \<rightharpoonup> config_value) \<Rightarrow> (string \<rightharpoonup> config_value)" where
  "final_values_loop environ conf [] final_values = final_values"
| "final_values_loop environ conf (field_name # rest) final_values =
     (case environ (upper field_name) of
        Some env_var_value \<Rightarrow>
          final_values_loop environ conf rest (final_values(field_name \<mapsto> VStr env_var_value))
      | None \<Rightarrow>
          (case conf field_name of
             Some v \<Rightarrow> final_values_loop environ conf rest (final_values(field_name \<mapsto> v))
           | None \<Rightarrow> final_values_loop environ conf rest final_values))"

definition final_values_for_instantiation ::
  "(string \<rightharpoonup> string) \<Rightarrow> RunnableConfig option \<Rightarrow> (string \<rightharpoonup> config_value)" where
  "final_values_for_instantiation environ config =
     final_values_loop environ (configurable_of config) model_fields Map.empty"

text \<open>
  \<open>cls(**final_values_for_instantiation)\<close>: the constructor of the model validates each
  value it is given and takes the declared default of a field it is not given. The
  validation belongs to the library; \<open>validate field value\<close> is its result, the parsed
  value or the failure of the construction.
\<close>

fun instantiate ::
  "(string \<Rightarrow> config_value \<Rightarrow> string + config_value) \<Rightarrow> (string \<rightharpoonup> config_value) \<Rightarrow>
   string list \<Rightarrow> (string \<rightharpoonup> config_value) \<Rightarrow> string + (string \<rightharpoonup> config_value)" where
  "instantiate validate given [] instance = Inr instance"
| "instantiate validate given (field_name # rest) instance =
     (case given field_name of
        Some v \<Rightarrow>
          (case validate field_name v of
             Inl e \<Rightarrow> Inl e
           | Inr parsed \<Rightarrow> instantiate validate given rest (instance(field_name \<mapsto> parsed)))
      | None \<Rightarrow>
          (case field_default field_name of
             Some d \<Rightarrow> instantiate validate given rest (instance(field_name \<mapsto> d))
           | None \<Rightarrow> Inl (''Field required: '' @ field_name)))"

definition from_runnable_config ::
  "(string \<Rightarrow> config_value \<Rightarrow> string + config_value) \<Rightarrow> (string \<rightharpoonup> string) \<Rightarrow>
   RunnableConfig option \<Rightarrow> string + (string \<rightharpoonup> config_value)" where
  "from_runnable_config validate environ config =
     instantiate validate (final_values_for_instantiation environ config) model_fields Map.empty"

section \<open>Example inputs\<close>

text \<open>Concrete sections and report states, on which the theorems below are instantiated.\<close>

definition mk :: "string \<Rightarrow> bool \<Rightarrow> string option \<Rightarrow> Section" where
  "mk n r c = \<lparr>name = n, description = ''about '' @ n, research = r, content = c\<rparr>"

definition report_state :: "Section list \<Rightarrow> Section list \<Rightarrow> ReportState" where
  "report_state planned completed =
     \<lparr>topic = ''X'', feedback_on_report_plan = [], sections = planned,
      completed_sections = completed, report_sections_from_research = [], final_report = None\<rparr>"

definition all_completed :: ReportState where
  "all_completed = report_state [mk ''A'' True None, mk ''B'' True None]
                                [mk ''B'' True (Some ''bb''), mk ''A'' True (Some ''aa'')]"

definition one_missing :: ReportState where
  "one_missing = report_state [mk ''A'' True None, mk ''B'' True None]
                              [mk ''B'' True (Some ''bb'')]"

definition one_none :: ReportState where
  "one_none = report_state [mk ''A'' True None, mk ''B'' True None]
                           [mk ''A'' True None, mk ''B'' True (Some ''bb'')]"

definition answering :: "grade \<Rightarrow> gateways" where
  "answering g =
     \<lparr>query_writer = (\<lambda>s. Inr [''first query'']),
      web_search = (\<lambda>s. Inr ''sources''),
      section_writer = (\<lambda>s. Inr ''draft''),
      section_grader = (\<lambda>s. Inr \<lparr>grade = g, follow_up_queries = [''follow-up query'']\<rparr>)\<rparr>"

definition dispatched :: SectionState where
  "dispatched = \<lparr>st_topic = ''X'', st_section = mk ''A'' True None, search_iterations = 0,
                  search_queries = [], source_str = []\<rparr>"

definition mixed_plan :: ReportState where
  "mixed_plan = report_state [mk ''A'' True None, mk ''C'' False None, mk ''B'' True None] []"

definition no_research_plan :: ReportState where
  "no_research_plan = report_state [mk ''C'' False None] []"

definition result_a :: SearchResult where
  "result_a = \<lparr>r_title = Some ''Page a'', r_url = Some ''http://a'', r_content = Some ''summary a'',
                r_raw_content = None\<rparr>"

definition result_b :: SearchResult where
  "result_b = \<lparr>r_title = Some ''Page b'', r_url = Some ''http://b'', r_content = Some ''summary b'',
                r_raw_content = Some ''raw b''\<rparr>"

definition good_response :: "string \<Rightarrow> SearchResponse" where
  "good_response q = \<lparr>resp_query = q, resp_error = None, resp_answer = None,
                       resp_results = [result_a, result_b]\<rparr>"

text \<open>A provider that fails on the query \<open>bad\<close> and answers every other query.\<close>

definition flaky_client :: "string \<Rightarrow> search_task" where
  "flaky_client q =
     (if q = ''bad'' then \<lparr>finished_at = 1, outcome = Inl ''boom''\<rparr>
      else \<lparr>finished_at = 2, outcome = Inr (good_response q)\<rparr>)"

text \<open>
  A provider on which two queries fail: \<open>slow\<close> fails late, \<open>fast\<close> fails early, and every
  other query is answered in between.
\<close>

definition racing_client :: "string \<Rightarrow> search_task" where
  "racing_client q =
     (if q = ''slow'' then \<lparr>finished_at = 5, outcome = Inl ''late''\<rparr>
      else if q = ''fast'' then \<lparr>finished_at = 1, outcome = Inl ''early''\<rparr>
      else \<lparr>finished_at = 2, outcome = Inr (good_response q)\<rparr>)"


definition environment :: "string \<rightharpoonup> string" where
  "environment = [''MAX_SEARCH_DEPTH'' \<mapsto> ''3'']"

definition caller_config :: "RunnableConfig option" where
  "caller_config =
     Some \<lparr>configurable = Some [''max_search_depth'' \<mapsto> VInt 5, ''number_of_queries'' \<mapsto> VInt 7]\<rparr>"

definition accept :: "string \<Rightarrow> config_value \<Rightarrow> string + config_value" where
  "accept field v = Inr v"

lemmas ex_defs = mk_def report_state_def all_completed_def one_missing_def one_none_def
lemmas compile_defs = compile_final_report_node_def final_report_parts_def completed_content_map_def report_part_def

lemmas loop_defs = build_section_with_web_research_def generate_queries_node_def
  search_web_node_def write_section_node_def research_loop.simps answering_def dispatched_def mk_def

section \<open>Properties of the compiler\<close>

lemma compile_loop_map: "compile_loop m ps parts = parts @ map (report_part m) ps"
  by (induction ps arbitrary: parts) auto

lemma final_report_parts_map:
  "final_report_parts state =
     map (report_part (completed_content_map (completed_sections state))) (sections state)"
  by (simp add: final_report_parts_def compile_loop_map)

lemma fold_upd_map_of:
  "fold (\<lambda>s m. m(name s \<mapsto> content s)) cs m0 =
     m0 ++ map_of (rev (map (\<lambda>s. (name s, content s)) cs))"
proof (induction cs arbitrary: m0)
  case Nil
  show ?case by simp
next
  case (Cons c cs)
  have "fold (\<lambda>s m. m(name s \<mapsto> content s)) (c # cs) m0 =
          (m0(name c \<mapsto> content c)) ++ map_of (rev (map (\<lambda>s. (name s, content s)) cs))"
    by (simp only: fold.simps o_apply Cons.IH)
  also have "\<dots> = m0 ++ map_of (rev (map (\<lambda>s. (name s, content s)) (c # cs)))"
    by (rule ext) (auto simp: map_add_def split: option.splits)
  finally show ?case .
qed

lemma completed_content_map_distinct:
  assumes "distinct (map name cs)"
  shows "completed_content_map cs n = Some v \<longleftrightarrow> (\<exists>s \<in> set cs. name s = n \<and> content s = v)"
proof -
  have d: "distinct (map fst (rev (map (\<lambda>s. (name s, content s)) cs)))"
    using assms by (simp add: rev_map[symmetric] comp_def)
  show ?thesis
    unfolding completed_content_map_def fold_upd_map_of
    using map_of_eq_Some_iff[OF d] by auto
qed

lemma completed_content_map_None:
  "completed_content_map cs n = None \<longleftrightarrow> n \<notin> name ` set cs"
  unfolding completed_content_map_def fold_upd_map_of
  by (auto simp: map_of_eq_None_iff image_iff)

lemma completed_content_map_perm:
  assumes "distinct (map name cs)" and "mset cs' = mset cs"
  shows "completed_content_map cs' = completed_content_map cs"
proof (rule ext)
  fix n
  have "mset (map name cs') = mset (map name cs)" using assms(2) by simp
  then have d': "distinct (map name cs')" using assms(1) mset_eq_imp_distinct_iff by blast
  have s: "set cs' = set cs" using assms(2) mset_eq_setD by blast
  show "completed_content_map cs' n = completed_content_map cs n"
  proof (cases "completed_content_map cs n")
    case None
    then show ?thesis using completed_content_map_None s by metis
  next
    case (Some v)
    then show ?thesis
      using completed_content_map_distinct[OF assms(1)] completed_content_map_distinct[OF d'] s
      by metis
  qed
qed

text \<open>
  C3. The compiler emits one part per planned section, in the order of the plan
  (\<open>full_report\<close> is the parts joined by blank lines). When the completed sections have
  distinct names (the collection is keyed by name) and cover the names of the plan, the
  part at position \<open>i\<close> is the header of the \<open>i\<close>-th planned section followed by the content
  of the completed section of that name; for a completed section whose content is \<open>None\<close>
  there is no content to embed and the part ends with the text of claim C10. The report is
  the same for every reordering of the completed sections.
\<close>

theorem compile_final_report_planned_order:
  assumes "distinct (map name (completed_sections state))"
      and "name ` set (sections state) \<subseteq> name ` set (completed_sections state)"
  shows "length (final_report_parts state) = length (sections state) \<and>
         (\<forall>i < length (sections state). \<exists>s \<in> set (completed_sections state).
             name s = name (sections state ! i) \<and>
             final_report_parts state ! i =
               ''## '' @ name (sections state ! i) @ nl @ nl @
               (case content s of Some c \<Rightarrow> c | None \<Rightarrow> is_none_text (name (sections state ! i)))) \<and>
         compile_final_report_node state = join (nl @ nl) (final_report_parts state) \<and>
         (\<forall>cs'. mset cs' = mset (completed_sections state) \<longrightarrow>
            compile_final_report_node (state\<lparr>completed_sections := cs'\<rparr>) =
            compile_final_report_node state)"
proof (intro conjI allI impI)
  show "length (final_report_parts state) = length (sections state)"
    by (simp add: final_report_parts_map)
next
  fix i assume i: "i < length (sections state)"
  let ?p = "sections state ! i"
  have "name ?p \<in> name ` set (completed_sections state)"
    using assms(2) i by (meson image_eqI nth_mem subsetD)
  then obtain v where v: "completed_content_map (completed_sections state) (name ?p) = Some v"
    using completed_content_map_None[of "completed_sections state" "name ?p"] by auto
  then obtain s where s: "s \<in> set (completed_sections state)" "name s = name ?p" "content s = v"
    using completed_content_map_distinct[OF assms(1)] by blast
  have "final_report_parts state ! i = report_part (completed_content_map (completed_sections state)) ?p"
    using i by (simp add: final_report_parts_map)
  also have "\<dots> = ''## '' @ name ?p @ nl @ nl @ (case content s of Some c \<Rightarrow> c | None \<Rightarrow> is_none_text (name ?p))"
    using v s by (simp add: report_part_def)
  finally show "\<exists>s \<in> set (completed_sections state).
             name s = name ?p \<and>
             final_report_parts state ! i =
               ''## '' @ name ?p @ nl @ nl @
               (case content s of Some c \<Rightarrow> c | None \<Rightarrow> is_none_text (name ?p))"
    using s by blast
next
  show "compile_final_report_node state = join (nl @ nl) (final_report_parts state)"
    by (simp add: compile_final_report_node_def)
next
  fix cs' assume "mset cs' = mset (completed_sections state)"
  then have "completed_content_map cs' = completed_content_map (completed_sections state)"
    using completed_content_map_perm[OF assms(1)] by blast
  then show "compile_final_report_node (state\<lparr>completed_sections := cs'\<rparr>) =
            compile_final_report_node state"
    by (simp add: compile_final_report_node_def final_report_parts_def)
qed

theorem compile_final_report_planned_order_witness:
  "distinct (map name (completed_sections all_completed)) \<and>
   name ` set (sections all_completed) \<subseteq> name ` set (completed_sections all_completed) \<and>
   length (final_report_parts all_completed) = 2 \<and>
   compile_final_report_node all_completed =
     ''## A'' @ nl @ nl @ ''aa'' @ nl @ nl @ ''## B'' @ nl @ nl @ ''bb'' \<and>
   compile_final_report_node (all_completed\<lparr>completed_sections := rev (completed_sections all_completed)\<rparr>) =
     compile_final_report_node all_completed"
proof -
  have d: "distinct (map name (completed_sections all_completed))"
    by (simp add: ex_defs)
  have c: "name ` set (sections all_completed) \<subseteq> name ` set (completed_sections all_completed)"
    by (simp add: ex_defs)
  have v: "compile_final_report_node all_completed =
     ''## A'' @ nl @ nl @ ''aa'' @ nl @ nl @ ''## B'' @ nl @ nl @ ''bb''"
    by (simp add: ex_defs compile_defs)
  have l: "length (sections all_completed) = 2"
    by (simp add: ex_defs)
  from compile_final_report_planned_order[OF d c] d c v l show ?thesis
    by simp
qed

lemma join_append:
  "join sep (xs @ ys) =
     (if xs = [] then join sep ys
      else if ys = [] then join sep xs
      else join sep xs @ sep @ join sep ys)"
proof (induction sep xs rule: join.induct)
  case (1 sep)
  show ?case by simp
next
  case (2 sep x)
  show ?case by (cases ys) simp_all
next
  case (3 sep x y zs)
  then show ?case by simp
qed

lemma compile_final_report_split:
  assumes "i < length (sections state)"
  shows "compile_final_report_node state =
           (if i = 0 then []
            else compile_final_report_node (state\<lparr>sections := take i (sections state)\<rparr>) @ nl @ nl)
           @ final_report_parts state ! i
           @ (if Suc i = length (sections state) then []
              else nl @ nl
                   @ compile_final_report_node (state\<lparr>sections := drop (Suc i) (sections state)\<rparr>))"
proof -
  let ?f = "report_part (completed_content_map (completed_sections state))"
  let ?ps = "sections state"
  have split: "?ps = take i ?ps @ [?ps ! i] @ drop (Suc i) ?ps"
    using assms by (simp add: Cons_nth_drop_Suc)
  have "final_report_parts state = map ?f (take i ?ps @ [?ps ! i] @ drop (Suc i) ?ps)"
    using split by (simp add: final_report_parts_map)
  then have parts: "final_report_parts state
                 = map ?f (take i ?ps) @ [?f (?ps ! i)] @ map ?f (drop (Suc i) ?ps)"
    by simp
  have nth: "final_report_parts state ! i = ?f (?ps ! i)"
    using assms by (simp add: final_report_parts_map)
  have t: "take i ?ps = [] \<longleftrightarrow> i = 0"
    using assms by auto
  have d: "drop (Suc i) ?ps = [] \<longleftrightarrow> Suc i = length ?ps"
    using assms by auto
  have j: "join (nl @ nl) ([?f (?ps ! i)] @ map ?f (drop (Suc i) ?ps))
             = ?f (?ps ! i)
               @ (if Suc i = length ?ps then []
                  else nl @ nl @ join (nl @ nl) (map ?f (drop (Suc i) ?ps)))"
    using d by (cases "map ?f (drop (Suc i) ?ps)") auto
  have "compile_final_report_node state
          = join (nl @ nl) (map ?f (take i ?ps) @ ([?f (?ps ! i)] @ map ?f (drop (Suc i) ?ps)))"
    using parts by (simp add: compile_final_report_node_def)
  also have "\<dots> = (if i = 0 then [] else join (nl @ nl) (map ?f (take i ?ps)) @ nl @ nl)
                    @ join (nl @ nl) ([?f (?ps ! i)] @ map ?f (drop (Suc i) ?ps))"
    using t by (subst join_append) auto
  finally show ?thesis
    unfolding j nth by (simp add: compile_final_report_node_def final_report_parts_map)
qed

text \<open>
  C6. A planned section whose name is absent from the completed sections gets, in the
  report the compiler returns, a header followed by the fixed text naming it. The
  compiler has no failing branch: it is a total function of the state. The text of the
  report before and after that block is the report the compiler returns for the plan
  before and for the plan after the missing section, so the other sections are rendered
  as they are without it; the same holds of the list of parts.
\<close>

theorem compile_missing_section:
  assumes "i < length (sections state)"
      and "name (sections state ! i) \<notin> name ` set (completed_sections state)"
  shows "compile_final_report_node state =
           (if i = 0 then []
            else compile_final_report_node (state\<lparr>sections := take i (sections state)\<rparr>) @ nl @ nl)
           @ ''## '' @ name (sections state ! i) @ nl @ nl
           @ ''[Content for section '' @ quote @ name (sections state ! i) @ quote
           @ '' not found/completed]''
           @ (if Suc i = length (sections state) then []
              else nl @ nl
                   @ compile_final_report_node (state\<lparr>sections := drop (Suc i) (sections state)\<rparr>)) \<and>
         final_report_parts state =
           final_report_parts (state\<lparr>sections := take i (sections state)\<rparr>)
           @ [''## '' @ name (sections state ! i) @ nl @ nl
              @ ''[Content for section '' @ quote @ name (sections state ! i) @ quote
              @ '' not found/completed]'']
           @ final_report_parts (state\<lparr>sections := drop (Suc i) (sections state)\<rparr>)"
proof -
  let ?m = "completed_content_map (completed_sections state)"
  have split: "sections state = take i (sections state) @ [sections state ! i] @ drop (Suc i) (sections state)"
    using assms(1) by (simp add: Cons_nth_drop_Suc)
  have "?m (name (sections state ! i)) = None"
    using assms(2) completed_content_map_None by blast
  then have p: "report_part ?m (sections state ! i) =
      ''## '' @ name (sections state ! i) @ nl @ nl
              @ ''[Content for section '' @ quote @ name (sections state ! i) @ quote
              @ '' not found/completed]''"
    by (simp add: report_part_def not_found_text_def)
  then have n: "final_report_parts state ! i =
      ''## '' @ name (sections state ! i) @ nl @ nl
              @ ''[Content for section '' @ quote @ name (sections state ! i) @ quote
              @ '' not found/completed]''"
    using assms(1) by (simp add: final_report_parts_map)
  have "final_report_parts state = map (report_part ?m) (take i (sections state) @ [sections state ! i] @ drop (Suc i) (sections state))"
    using split by (simp add: final_report_parts_map)
  then have parts: "final_report_parts state =
           final_report_parts (state\<lparr>sections := take i (sections state)\<rparr>)
           @ [''## '' @ name (sections state ! i) @ nl @ nl
              @ ''[Content for section '' @ quote @ name (sections state ! i) @ quote
              @ '' not found/completed]'']
           @ final_report_parts (state\<lparr>sections := drop (Suc i) (sections state)\<rparr>)"
    by (simp add: final_report_parts_map p)
  show ?thesis
    using compile_final_report_split[OF assms(1)] parts unfolding n by simp
qed

theorem compile_missing_section_witness:
  "0 < length (sections one_missing) \<and>
   name (sections one_missing ! 0) \<notin> name ` set (completed_sections one_missing) \<and>
   compile_final_report_node one_missing =
     ''## A'' @ nl @ nl @ ''[Content for section '' @ quote @ ''A'' @ quote @ '' not found/completed]''
     @ nl @ nl @ ''## B'' @ nl @ nl @ ''bb''"
proof -
  have i: "0 < length (sections one_missing)" by (simp add: ex_defs)
  have m: "name (sections one_missing ! 0) \<notin> name ` set (completed_sections one_missing)"
    by (simp add: ex_defs)
  have r: "compile_final_report_node (one_missing\<lparr>sections := drop (Suc 0) (sections one_missing)\<rparr>)
             = ''## B'' @ nl @ nl @ ''bb''"
    by (simp add: ex_defs compile_defs)
  have n: "name (sections one_missing ! 0) = ''A''" "length (sections one_missing) = 2"
    by (simp_all add: ex_defs)
  from compile_missing_section[OF i m] r n m show ?thesis
    by simp
qed

text \<open>
  C10. A planned section whose name is present with content \<open>None\<close> gets, in the report
  the compiler returns, a header followed by a fixed text naming it as having no content,
  between the reports for the plan before and for the plan after it. That block is
  neither the header with the bare \<open>None\<close> nor the header with the text for a missing
  section.
\<close>

theorem compile_none_content:
  assumes "i < length (sections state)"
      and "distinct (map name (completed_sections state))"
      and "s \<in> set (completed_sections state)"
      and "name s = name (sections state ! i)"
      and "content s = None"
  shows "compile_final_report_node state =
           (if i = 0 then []
            else compile_final_report_node (state\<lparr>sections := take i (sections state)\<rparr>) @ nl @ nl)
           @ ''## '' @ name s @ nl @ nl
           @ ''[Content for section '' @ quote @ name s @ quote @ '' is None]''
           @ (if Suc i = length (sections state) then []
              else nl @ nl
                   @ compile_final_report_node (state\<lparr>sections := drop (Suc i) (sections state)\<rparr>)) \<and>
         final_report_parts state ! i =
           ''## '' @ name s @ nl @ nl @ ''[Content for section '' @ quote @ name s @ quote @ '' is None]'' \<and>
         final_report_parts state ! i \<noteq> ''## '' @ name s @ nl @ nl @ ''None'' \<and>
         final_report_parts state ! i \<noteq> ''## '' @ name s @ nl @ nl @ not_found_text (name s)"
proof -
  let ?m = "completed_content_map (completed_sections state)"
  have "?m (name (sections state ! i)) = Some None"
    using completed_content_map_distinct[OF assms(2)] assms(3,4,5) by auto
  then have "report_part ?m (sections state ! i) =
      ''## '' @ name s @ nl @ nl @ ''[Content for section '' @ quote @ name s @ quote @ '' is None]''"
    using assms(4) by (simp add: report_part_def is_none_text_def)
  then have p: "final_report_parts state ! i =
      ''## '' @ name s @ nl @ nl @ ''[Content for section '' @ quote @ name s @ quote @ '' is None]''"
    using assms(1) by (simp add: final_report_parts_map)
  show ?thesis
    using compile_final_report_split[OF assms(1)] unfolding p by (simp add: not_found_text_def)
qed

theorem compile_none_content_witness:
  "0 < length (sections one_none) \<and>
   distinct (map name (completed_sections one_none)) \<and>
   mk ''A'' True None \<in> set (completed_sections one_none) \<and>
   name (mk ''A'' True None) = name (sections one_none ! 0) \<and>
   content (mk ''A'' True None) = None \<and>
   compile_final_report_node one_none =
     ''## A'' @ nl @ nl @ ''[Content for section '' @ quote @ ''A'' @ quote @ '' is None]''
     @ nl @ nl @ ''## B'' @ nl @ nl @ ''bb''"
proof -
  have i: "0 < length (sections one_none)" by (simp add: ex_defs)
  have d: "distinct (map name (completed_sections one_none))" by (simp add: ex_defs)
  have m: "mk ''A'' True None \<in> set (completed_sections one_none)" by (simp add: ex_defs)
  have n: "name (mk ''A'' True None) = name (sections one_none ! 0)" by (simp add: ex_defs)
  have c: "content (mk ''A'' True None) = None" by (simp add: ex_defs)
  have a: "name (mk ''A'' True None) = ''A''" "length (sections one_none) = 2"
    by (simp_all add: ex_defs)
  have r: "compile_final_report_node (one_none\<lparr>sections := drop (Suc 0) (sections one_none)\<rparr>)
             = ''## B'' @ nl @ nl @ ''bb''"
    by (simp add: ex_defs compile_defs)
  from compile_none_content[OF i d m n c] i d m n c a r show ?thesis
    by simp
qed

section \<open>Properties of the research context\<close>




section \<open>Properties of the section research loop\<close>

lemma write_section_node_END:
  assumes "write_section_node gw d s = Inr (Goto_END fin completed)"
  shows "search_iterations fin = search_iterations s \<and> completed = [st_section fin] \<and>
         (\<exists>fb. section_grader gw fin = Inr fb \<and> (grade fb = Pass \<or> d \<le> search_iterations s))"
  using assms
  by (auto simp: write_section_node_def Let_def split: sum.splits if_splits)

lemma research_loop_run:
  assumes "search_iterations s < d"
  shows "search_iterations (final_state (research_loop gw d s seen)) \<le> d \<and>
         int (count_list (visited (research_loop gw d s seen)) search_web)
           \<le> int (count_list seen search_web) + (d - search_iterations s) \<and>
         int (count_list (visited (research_loop gw d s seen)) write_section)
           \<le> int (count_list seen write_section) + (d - search_iterations s) \<and>
         (\<forall>completed fb. produced (research_loop gw d s seen) = Inr completed \<longrightarrow>
            section_grader gw (final_state (research_loop gw d s seen)) = Inr fb \<longrightarrow>
            grade fb = Fail \<longrightarrow>
            search_iterations (final_state (research_loop gw d s seen)) = d) \<and>
         (\<forall>completed. produced (research_loop gw d s seen) = Inr completed \<longrightarrow>
            completed = [st_section (final_state (research_loop gw d s seen))] \<and>
            int (count_list (visited (research_loop gw d s seen)) search_web)
              = int (count_list seen search_web)
                + (search_iterations (final_state (research_loop gw d s seen)) - search_iterations s) \<and>
            count_list (visited (research_loop gw d s seen)) write_section
              + count_list seen search_web
              = count_list (visited (research_loop gw d s seen)) search_web
                + count_list seen write_section)"
  using assms
proof (induction gw d s seen rule: research_loop.induct)
  case (1 gw d s seen)
  show ?case
  proof (cases "search_web_node gw s")
    case (Inl e)
    then show ?thesis using "1.prems" by (simp add: research_loop.simps)
  next
    case (Inr searched)
    have it: "search_iterations searched = search_iterations s + 1"
      using Inr by (rule search_web_node_iterations)
    show ?thesis
    proof (cases "write_section_node gw d searched")
      case (Inl e)
      then show ?thesis using Inr it "1.prems" by (simp add: research_loop.simps)
    next
      case c: (Inr c)
      show ?thesis
      proof (cases c)
        case (Goto_END fin emitted)
        then obtain fb where "search_iterations fin = search_iterations searched"
          and "emitted = [st_section fin]"
          and "section_grader gw fin = Inr fb"
          and "grade fb = Pass \<or> d \<le> search_iterations searched"
          using c write_section_node_END by blast
        then show ?thesis using Inr c Goto_END it "1.prems" by (auto simp: research_loop.simps)
      next
        case (Goto_search_web again)
        then have a: "search_iterations again = search_iterations s + 1" "search_iterations again < d"
          using c it write_section_node_again by fastforce+
        have eq: "research_loop gw d s seen
                    = research_loop gw d again (seen @ [search_web, write_section])"
          using Inr c Goto_search_web by (simp add: research_loop.simps)
        show ?thesis
          unfolding eq
          using "1.IH"[OF Inr c Goto_search_web a(2)] a(1) by auto
      qed
    qed
  qed
qed

text \<open>
  C2. \<open>research_loop\<close> is a total function (its termination is proved with the measure
  \<open>max_search_depth - search_iterations\<close>), so every run of the section graph ends: with
  the exception of a gateway, or at \<open>END\<close>. For a positive \<open>max_search_depth\<close> and a run
  started as the fan-out starts it, with \<open>search_iterations = 0\<close>: the counter is at most
  \<open>max_search_depth\<close> when the run ends; \<open>search_web\<close> and \<open>write_section\<close> are each
  entered at most \<open>max_search_depth\<close> times; and in a run that reaches \<open>END\<close> the counter
  is the number of searches made, there are as many write-and-grade rounds as searches,
  and if the grade of the last round (the grader's answer in the final state) is \<open>Fail\<close>
  the counter equals \<open>max_search_depth\<close>.
\<close>

theorem section_research_loop_bounded:
  assumes "0 < max_search_depth"
      and "search_iterations state = 0"
      and "r = build_section_with_web_research gw max_search_depth state"
  shows "search_iterations (final_state r) \<le> max_search_depth \<and>
         int (count_list (visited r) search_web) \<le> max_search_depth \<and>
         int (count_list (visited r) write_section) \<le> max_search_depth \<and>
         (\<forall>completed. produced r = Inr completed \<longrightarrow>
            completed = [st_section (final_state r)] \<and>
            int (count_list (visited r) search_web) = search_iterations (final_state r) \<and>
            count_list (visited r) write_section = count_list (visited r) search_web \<and>
            (\<forall>fb. section_grader gw (final_state r) = Inr fb \<longrightarrow> grade fb = Fail \<longrightarrow>
               search_iterations (final_state r) = max_search_depth))"
proof (cases "generate_queries_node gw state")
  case (Inl e)
  then have "r = \<lparr>final_state = state, produced = Inl e, visited = [generate_queries]\<rparr>"
    using assms(3) by (simp add: build_section_with_web_research_def)
  then show ?thesis using assms(1,2) by simp
next
  case (Inr queried)
  then have q: "search_iterations queried = 0"
    using assms(2) by (auto simp: generate_queries_node_def split: sum.splits)
  have r: "r = research_loop gw max_search_depth queried [generate_queries]"
    using Inr assms(3) by (simp add: build_section_with_web_research_def)
  have lt: "search_iterations queried < max_search_depth"
    using q assms(1) by simp
  show ?thesis
    unfolding r
    using research_loop_run[OF lt, of gw "[generate_queries]"] q
    by auto
qed

theorem section_research_loop_bounded_witness:
  "(0::int) < 2 \<and> search_iterations dispatched = 0 \<and>
   produced (build_section_with_web_research (answering Fail) 2 dispatched)
     = Inr [mk ''A'' True (Some ''draft'')] \<and>
   visited (build_section_with_web_research (answering Fail) 2 dispatched)
     = [generate_queries, search_web, write_section, search_web, write_section] \<and>
   search_iterations (final_state (build_section_with_web_research (answering Fail) 2 dispatched)) = 2"
proof -
  have d: "(0::int) < 2" by simp
  have z: "search_iterations dispatched = 0" by (simp add: dispatched_def)
  have p: "produced (build_section_with_web_research (answering Fail) 2 dispatched)
             = Inr [mk ''A'' True (Some ''draft'')]"
    by (simp add: loop_defs Let_def)
  have v: "visited (build_section_with_web_research (answering Fail) 2 dispatched)
     = [generate_queries, search_web, write_section, search_web, write_section]"
    by (simp add: loop_defs Let_def)
  have g: "section_grader (answering Fail)
             (final_state (build_section_with_web_research (answering Fail) 2 dispatched))
           = Inr \<lparr>grade = Fail, follow_up_queries = [''follow-up query'']\<rparr>"
    by (simp add: answering_def)
  from section_research_loop_bounded[OF d z refl, of "answering Fail"] p g
  have "search_iterations (final_state (build_section_with_web_research (answering Fail) 2 dispatched)) = 2"
    by simp
  with d z p v show ?thesis by simp
qed

text \<open>
  C5. Whatever the counter and whatever \<open>max_search_depth\<close>: when the grader answers
  \<open>Pass\<close>, \<open>write_section_node\<close> returns the command to \<open>END\<close> emitting the written
  section, and the loop ends with that round, having entered \<open>search_web\<close> and
  \<open>write_section\<close> once more each and no node after them. In the instance below the
  counter is 1 and \<open>max_search_depth\<close> is 5.
\<close>

theorem grade_pass_ends_loop:
  assumes "search_web_node gw state = Inr searched"
      and "section_writer gw searched = Inr text"
      and "written = searched\<lparr>st_section := (st_section searched)\<lparr>content := Some text\<rparr>\<rparr>"
      and "section_grader gw written = Inr feedback_result"
      and "grade feedback_result = Pass"
  shows "write_section_node gw max_search_depth searched
           = Inr (Goto_END written [st_section written]) \<and>
         research_loop gw max_search_depth state seen
           = \<lparr>final_state = written, produced = Inr [st_section written],
              visited = seen @ [search_web, write_section]\<rparr>"
proof -
  have w: "write_section_node gw max_search_depth searched
             = Inr (Goto_END written [st_section written])"
    using assms(2,3,4,5) by (simp add: write_section_node_def Let_def)
  then show ?thesis
    using assms(1) by (simp add: research_loop.simps)
qed

theorem grade_pass_ends_loop_witness:
  "search_web_node (answering Pass) dispatched
     = Inr (dispatched\<lparr>source_str := ''sources'', search_iterations := 1\<rparr>) \<and>
   section_writer (answering Pass) (dispatched\<lparr>source_str := ''sources'', search_iterations := 1\<rparr>)
     = Inr ''draft'' \<and>
   grade \<lparr>grade = Pass, follow_up_queries = [''follow-up query'']\<rparr> = Pass \<and>
   (1::int) < 5 \<and>
   research_loop (answering Pass) 5 dispatched [generate_queries]
     = \<lparr>final_state = dispatched\<lparr>source_str := ''sources'', search_iterations := 1,
                                   st_section := mk ''A'' True (Some ''draft'')\<rparr>,
        produced = Inr [mk ''A'' True (Some ''draft'')],
        visited = [generate_queries, search_web, write_section]\<rparr>"
proof -
  let ?searched = "dispatched\<lparr>source_str := ''sources'', search_iterations := 1\<rparr>"
  let ?written = "?searched\<lparr>st_section := (st_section ?searched)\<lparr>content := Some ''draft''\<rparr>\<rparr>"
  have s: "search_web_node (answering Pass) dispatched = Inr ?searched"
    by (simp add: search_web_node_def answering_def dispatched_def)
  have w: "section_writer (answering Pass) ?searched = Inr ''draft''"
    by (simp add: answering_def)
  have g: "section_grader (answering Pass) ?written
             = Inr \<lparr>grade = Pass, follow_up_queries = [''follow-up query'']\<rparr>"
    by (simp add: answering_def)
  have p: "grade \<lparr>grade = Pass, follow_up_queries = [''follow-up query'']\<rparr> = Pass"
    by simp
  from grade_pass_ends_loop[OF s w refl g p, of 5 "[generate_queries]"] s w p
  show ?thesis
    by (simp add: dispatched_def mk_def)
qed

section \<open>Properties of the approval gate and the fan-out\<close>

text \<open>
  C7. The node approves every plan: it never raises and never sends the run back to
  \<open>generate_report_plan\<close>. When some planned section has the research flag, it dispatches
  the tasks whose sections are exactly the planned sections with the flag, in the order of
  the plan and one task each, every task for the section graph with the topic of the run
  and the counter 0. When no planned section has the flag, it dispatches nothing and goes
  to \<open>gather_completed_sections\<close>.
\<close>

theorem human_feedback_fan_out:
  "human_feedback_node state \<noteq> Raise_TypeError \<and>
   (\<forall>fb. human_feedback_node state \<noteq> Goto_node ''generate_report_plan'' fb) \<and>
   (filter research (sections state) \<noteq> [] \<longrightarrow>
      (\<exists>tasks. human_feedback_node state = Goto_tasks tasks \<and>
         map (\<lambda>t. st_section (send_arg t)) tasks = filter research (sections state) \<and>
         (\<forall>t \<in> set tasks. send_node t = ''build_section_with_web_research'' \<and>
            st_topic (send_arg t) = topic state \<and> search_iterations (send_arg t) = 0))) \<and>
   (filter research (sections state) = [] \<longrightarrow>
      human_feedback_node state = Goto_node ''gather_completed_sections'' [])"
  by (auto simp: human_feedback_node_def on_feedback_def research_tasks_def comp_def)

theorem human_feedback_fan_out_witness:
  "filter research (sections mixed_plan) = [mk ''A'' True None, mk ''B'' True None] \<and>
   (\<exists>tasks. human_feedback_node mixed_plan = Goto_tasks tasks \<and>
      map (\<lambda>t. st_section (send_arg t)) tasks = [mk ''A'' True None, mk ''B'' True None]) \<and>
   filter research (sections no_research_plan) = [] \<and>
   human_feedback_node no_research_plan = Goto_node ''gather_completed_sections'' []"
proof -
  have m: "filter research (sections mixed_plan) = [mk ''A'' True None, mk ''B'' True None]"
    by (simp add: mixed_plan_def report_state_def mk_def)
  have n: "filter research (sections no_research_plan) = []"
    by (simp add: no_research_plan_def report_state_def mk_def)
  from human_feedback_fan_out[of mixed_plan] human_feedback_fan_out[of no_research_plan] m n
  show ?thesis
    by auto
qed

section \<open>Properties of the search layer\<close>

lemma first_raised_None:
  "first_raised tasks = None \<longleftrightarrow> (\<forall>t \<in> set tasks. \<not> isl (outcome t))"
  by (induction tasks) (auto split: sum.splits option.splits)

lemma first_raised_earliest:
  "first_raised tasks = Some (at, e) \<Longrightarrow>
     \<exists>i < length tasks. outcome (tasks ! i) = Inl e \<and> finished_at (tasks ! i) = at \<and>
        (\<forall>j < length tasks. isl (outcome (tasks ! j)) \<longrightarrow> at \<le> finished_at (tasks ! j)) \<and>
        (\<forall>j < i. isl (outcome (tasks ! j)) \<longrightarrow> at < finished_at (tasks ! j))"
proof (induction tasks arbitrary: at e)
  case Nil
  then show ?case by simp
next
  case (Cons t ts)
  show ?case
  proof (cases "outcome t")
    case (Inr r)
    then have "first_raised ts = Some (at, e)" using Cons.prems by simp
    then obtain i where i: "i < length ts" "outcome (ts ! i) = Inl e" "finished_at (ts ! i) = at"
      "\<forall>j < length ts. isl (outcome (ts ! j)) \<longrightarrow> at \<le> finished_at (ts ! j)"
      "\<forall>j < i. isl (outcome (ts ! j)) \<longrightarrow> at < finished_at (ts ! j)"
      using Cons.IH by blast
    have "Suc i < length (t # ts) \<and> outcome ((t # ts) ! Suc i) = Inl e \<and>
          finished_at ((t # ts) ! Suc i) = at \<and>
          (\<forall>j < length (t # ts). isl (outcome ((t # ts) ! j)) \<longrightarrow> at \<le> finished_at ((t # ts) ! j)) \<and>
          (\<forall>j < Suc i. isl (outcome ((t # ts) ! j)) \<longrightarrow> at < finished_at ((t # ts) ! j))"
      using i Inr by (auto simp: nth_Cons split: nat.splits)
    then show ?thesis by blast
  next
    case (Inl e0)
    show ?thesis
    proof (cases "first_raised ts")
      case None
      then have ok: "\<forall>x \<in> set ts. \<not> isl (outcome x)" using first_raised_None by blast
      have "at = finished_at t" "e = e0" using Cons.prems Inl None by simp_all
      then have "0 < length (t # ts) \<and> outcome ((t # ts) ! 0) = Inl e \<and>
          finished_at ((t # ts) ! 0) = at \<and>
          (\<forall>j < length (t # ts). isl (outcome ((t # ts) ! j)) \<longrightarrow> at \<le> finished_at ((t # ts) ! j)) \<and>
          (\<forall>j < 0. isl (outcome ((t # ts) ! j)) \<longrightarrow> at < finished_at ((t # ts) ! j))"
        using Inl ok by (auto simp: nth_Cons split: nat.splits)
      then show ?thesis by blast
    next
      case (Some p)
      obtain at' e' where p: "p = (at', e')" by (cases p)
      obtain i where i: "i < length ts" "outcome (ts ! i) = Inl e'" "finished_at (ts ! i) = at'"
        "\<forall>j < length ts. isl (outcome (ts ! j)) \<longrightarrow> at' \<le> finished_at (ts ! j)"
        "\<forall>j < i. isl (outcome (ts ! j)) \<longrightarrow> at' < finished_at (ts ! j)"
        using Cons.IH[of at' e'] Some p by blast
      show ?thesis
      proof (cases "at' < finished_at t")
        case True
        then have "at = at'" "e = e'" using Cons.prems Inl Some p by simp_all
        then have "Suc i < length (t # ts) \<and> outcome ((t # ts) ! Suc i) = Inl e \<and>
          finished_at ((t # ts) ! Suc i) = at \<and>
          (\<forall>j < length (t # ts). isl (outcome ((t # ts) ! j)) \<longrightarrow> at \<le> finished_at ((t # ts) ! j)) \<and>
          (\<forall>j < Suc i. isl (outcome ((t # ts) ! j)) \<longrightarrow> at < finished_at ((t # ts) ! j))"
          using i True by (auto simp: nth_Cons split: nat.splits)
        then show ?thesis by blast
      next
        case False
        then have "at = finished_at t" "e = e0" using Cons.prems Inl Some p by simp_all
        then have "0 < length (t # ts) \<and> outcome ((t # ts) ! 0) = Inl e \<and>
          finished_at ((t # ts) ! 0) = at \<and>
          (\<forall>j < length (t # ts). isl (outcome ((t # ts) ! j)) \<longrightarrow> at \<le> finished_at ((t # ts) ! j)) \<and>
          (\<forall>j < 0. isl (outcome ((t # ts) ! j)) \<longrightarrow> at < finished_at ((t # ts) ! j))"
          using Inl i False by (fastforce simp: nth_Cons split: nat.splits)
        then show ?thesis by blast
      qed
    qed
  qed
qed

lemma returned_all:
  "\<forall>t \<in> set tasks. \<not> isl (outcome t) \<Longrightarrow> returned tasks = map (\<lambda>t. projr (outcome t)) tasks"
  by (induction tasks) (auto split: sum.splits)

text \<open>
  C1. The claim says that in a batch where one query fails and another succeeds, the
  returned sequence still carries the results of the successful query. The searches are
  gathered without \<open>return_exceptions\<close>, and the \<open>except\<close> branch answers the first
  exception with an error object for every query: in the batch \<open>good, bad\<close>, where the
  provider fails on \<open>bad\<close> and returns two results for \<open>good\<close>, the entry for \<open>good\<close>
  is an error object with no results.
\<close>

theorem tavily_search_async_isolation_counterexample:
  "outcome (flaky_client ''bad'') = Inl ''boom'' \<and>
   outcome (flaky_client ''good'') = Inr (good_response ''good'') \<and>
   resp_results (good_response ''good'') = [result_a, result_b] \<and>
   tavily_search_async flaky_client [''good'', ''bad'']
     = [error_response ''good'' ''boom'', error_response ''bad'' ''boom''] \<and>
   resp_results (tavily_search_async flaky_client [''good'', ''bad''] ! 0) = [] \<and>
   tavily_search_async flaky_client [''good'', ''bad''] ! 0 \<noteq> good_response ''good''"
  by (simp add: tavily_search_async_def gather_def flaky_client_def good_response_def
        error_response_def)

text \<open>
  C1, as amended. The search layer returns one entry per query, in the order of the
  queries, and lets no exception of the provider through. When some query fails, every
  entry is the structured error result of its query, with no results and with the message
  of the first failure raised: the failure of a query that finished no later than any
  other failing query, and earlier than every failing query before it in the batch. When
  no query fails, the entries are the provider's responses. In the instance below two
  queries fail, and the message is that of the one that failed first, which stands last in
  the batch.
\<close>

theorem tavily_search_async_batch:
  "length (tavily_search_async client queries) = length queries \<and>
   ((\<exists>q \<in> set queries. isl (outcome (client q))) \<longrightarrow>
      (\<exists>i < length queries. \<exists>e.
         outcome (client (queries ! i)) = Inl e \<and>
         (\<forall>j < length queries. isl (outcome (client (queries ! j))) \<longrightarrow>
            finished_at (client (queries ! i)) \<le> finished_at (client (queries ! j))) \<and>
         (\<forall>j < i. isl (outcome (client (queries ! j))) \<longrightarrow>
            finished_at (client (queries ! i)) < finished_at (client (queries ! j))) \<and>
         tavily_search_async client queries =
           map (\<lambda>q. \<lparr>resp_query = q, resp_error = Some e, resp_answer = None, resp_results = []\<rparr>)
               queries)) \<and>
   ((\<forall>q \<in> set queries. \<not> isl (outcome (client q))) \<longrightarrow>
      tavily_search_async client queries = map (\<lambda>q. projr (outcome (client q))) queries)"
proof (cases "first_raised (map client queries)")
  case None
  then have ok: "\<forall>t \<in> set (map client queries). \<not> isl (outcome t)"
    using first_raised_None by blast
  then have "tavily_search_async client queries = map (\<lambda>q. projr (outcome (client q))) queries"
    using None returned_all[OF ok] by (simp add: tavily_search_async_def gather_def comp_def)
  then show ?thesis using ok by auto
next
  case (Some p)
  obtain at e where p: "p = (at, e)" by (cases p)
  obtain i where i: "i < length (map client queries)"
    "outcome (map client queries ! i) = Inl e" "finished_at (map client queries ! i) = at"
    "\<forall>j < length (map client queries). isl (outcome (map client queries ! j)) \<longrightarrow>
       at \<le> finished_at (map client queries ! j)"
    "\<forall>j < i. isl (outcome (map client queries ! j)) \<longrightarrow> at < finished_at (map client queries ! j)"
    using first_raised_earliest[of "map client queries" at e] Some p by blast
  have r: "tavily_search_async client queries =
           map (\<lambda>q. \<lparr>resp_query = q, resp_error = Some e, resp_answer = None, resp_results = []\<rparr>)
               queries"
    using Some p by (simp add: tavily_search_async_def gather_def error_response_def)
  have "i < length queries \<and> outcome (client (queries ! i)) = Inl e \<and>
         (\<forall>j < length queries. isl (outcome (client (queries ! j))) \<longrightarrow>
            finished_at (client (queries ! i)) \<le> finished_at (client (queries ! j))) \<and>
         (\<forall>j < i. isl (outcome (client (queries ! j))) \<longrightarrow>
            finished_at (client (queries ! i)) < finished_at (client (queries ! j)))"
    using i by auto
  moreover from this have "queries ! i \<in> set queries" "isl (outcome (client (queries ! i)))"
    by simp_all
  then have "\<not> (\<forall>q \<in> set queries. \<not> isl (outcome (client q)))"
    by blast
  ultimately show ?thesis using r by auto
qed

theorem tavily_search_async_batch_witness:
  "isl (outcome (racing_client ''slow'')) \<and>
   \<not> isl (outcome (racing_client ''ok'')) \<and>
   \<not> isl (outcome (racing_client ''fine'')) \<and>
   tavily_search_async racing_client [''slow'', ''ok'', ''fast'']
     = [\<lparr>resp_query = ''slow'', resp_error = Some ''early'', resp_answer = None, resp_results = []\<rparr>,
        \<lparr>resp_query = ''ok'', resp_error = Some ''early'', resp_answer = None, resp_results = []\<rparr>,
        \<lparr>resp_query = ''fast'', resp_error = Some ''early'', resp_answer = None, resp_results = []\<rparr>] \<and>
   tavily_search_async racing_client [''ok'', ''fine'']
     = [good_response ''ok'', good_response ''fine'']"
proof -
  let ?qs = "[''slow'', ''ok'', ''fast'']"
  have b: "isl (outcome (racing_client ''slow''))" by (simp add: racing_client_def)
  have g: "\<not> isl (outcome (racing_client ''ok''))" "\<not> isl (outcome (racing_client ''fine''))"
    by (simp_all add: racing_client_def)
  have p: "projr (outcome (racing_client ''ok'')) = good_response ''ok''"
          "projr (outcome (racing_client ''fine'')) = good_response ''fine''"
    by (simp_all add: racing_client_def)
  have "\<exists>q \<in> set ?qs. isl (outcome (racing_client q))"
    using b by simp
  then obtain i e where i: "i < length ?qs" "outcome (racing_client (?qs ! i)) = Inl e"
    and first: "\<forall>j < length ?qs. isl (outcome (racing_client (?qs ! j))) \<longrightarrow>
                  finished_at (racing_client (?qs ! i)) \<le> finished_at (racing_client (?qs ! j))"
    and r: "tavily_search_async racing_client ?qs =
              map (\<lambda>q. \<lparr>resp_query = q, resp_error = Some e, resp_answer = None, resp_results = []\<rparr>)
                  ?qs"
    using tavily_search_async_batch[of racing_client ?qs] by blast
  have "i = 0 \<or> i = 1 \<or> i = 2" using i(1) by auto
  moreover have "i \<noteq> 0"
  proof
    assume "i = 0"
    then show False using first[rule_format, of 2] by (simp add: racing_client_def)
  qed
  moreover have "i \<noteq> 1"
  proof
    assume "i = 1"
    then show False using i(2) by (simp add: racing_client_def)
  qed
  ultimately have "i = 2" by blast
  then have "e = ''early''" using i(2) by (simp add: racing_client_def)
  then have "tavily_search_async racing_client ?qs
     = [\<lparr>resp_query = ''slow'', resp_error = Some ''early'', resp_answer = None, resp_results = []\<rparr>,
        \<lparr>resp_query = ''ok'', resp_error = Some ''early'', resp_answer = None, resp_results = []\<rparr>,
        \<lparr>resp_query = ''fast'', resp_error = Some ''early'', resp_answer = None, resp_results = []\<rparr>]"
    using r by simp
  moreover have "tavily_search_async racing_client [''ok'', ''fine'']
     = [good_response ''ok'', good_response ''fine'']"
    using tavily_search_async_batch[of racing_client "[''ok'', ''fine'']"] g p by simp
  ultimately show ?thesis using b g by simp
qed













section \<open>Properties of the configuration\<close>

lemma final_values_loop_lookup:
  "final_values_loop environ conf fs final f =
     (if f \<in> set fs
      then (case environ (upper f) of
              Some e \<Rightarrow> Some (VStr e)
            | None \<Rightarrow> (case conf f of Some v \<Rightarrow> Some v | None \<Rightarrow> final f))
      else final f)"
  by (induction fs arbitrary: final) (auto split: option.splits)

lemma instantiate_lookup:
  assumes "instantiate validate given fs inst0 = Inr inst"
  shows "(f \<in> set fs \<longrightarrow>
            (\<exists>v. inst f = Some v \<and>
               (case given f of
                  Some c \<Rightarrow> validate f c = Inr v
                | None \<Rightarrow> field_default f = Some v))) \<and>
         (f \<notin> set fs \<longrightarrow> inst f = inst0 f)"
  using assms
proof (induction fs arbitrary: inst0)
  case Nil
  then show ?case by simp
next
  case (Cons g fs)
  show ?case
  proof (cases "given g")
    case None
    then obtain d where d: "field_default g = Some d"
      and r: "instantiate validate given fs (inst0(g \<mapsto> d)) = Inr inst"
      using Cons.prems by (auto split: option.splits)
    show ?thesis
      using Cons.IH[OF r] None d by (cases "f = g") auto
  next
    case (Some c)
    then obtain p where p: "validate g c = Inr p"
      and r: "instantiate validate given fs (inst0(g \<mapsto> p)) = Inr inst"
      using Cons.prems by (auto split: sum.splits)
    show ?thesis
      using Cons.IH[OF r] Some p by (cases "f = g") auto
  qed
qed

lemma instantiate_succeeds:
  assumes "\<forall>f \<in> set fs. case given f of
                             Some c \<Rightarrow> \<not> isl (validate f c)
                           | None \<Rightarrow> field_default f \<noteq> None"
  shows "\<exists>inst. instantiate validate given fs inst0 = Inr inst"
  using assms
proof (induction fs arbitrary: inst0)
  case Nil
  show ?case by simp
next
  case (Cons g fs)
  then show ?case
    by (cases "given g"; cases "validate g (the (given g))") (auto split: option.splits sum.splits)
qed

lemma field_default_total: "f \<in> set model_fields \<Longrightarrow> field_default f \<noteq> None"
  by (auto simp: model_fields_def field_default_def)

text \<open>
  C9. For every field of the configuration, the value handed to the constructor follows
  the layered order: the value of the environment variable named by the field name in
  upper case when it is set; else the value under the field's key in the caller's
  \<open>configurable\<close> mapping when the key is there; else nothing, and the constructor takes
  the declared default. So in the instance built, the field holds the validated
  environment value, else the validated caller's value, else the default. The
  construction succeeds whenever the validation accepts the values.
\<close>

theorem from_runnable_config_layered:
  assumes "field_name \<in> set model_fields"
  shows "final_values_for_instantiation environ config field_name =
           (case environ (upper field_name) of
              Some env_var_value \<Rightarrow> Some (VStr env_var_value)
            | None \<Rightarrow> configurable_of config field_name) \<and>
         (\<forall>inst. from_runnable_config validate environ config = Inr inst \<longrightarrow>
            (\<exists>v. inst field_name = Some v \<and>
               (case environ (upper field_name) of
                  Some env_var_value \<Rightarrow> validate field_name (VStr env_var_value) = Inr v
                | None \<Rightarrow>
                    (case configurable_of config field_name of
                       Some c \<Rightarrow> validate field_name c = Inr v
                     | None \<Rightarrow> field_default field_name = Some v)))) \<and>
         ((\<forall>f c. \<not> isl (validate f c)) \<longrightarrow>
            (\<exists>inst. from_runnable_config validate environ config = Inr inst))"
proof (intro conjI allI impI)
  show fv: "final_values_for_instantiation environ config field_name =
           (case environ (upper field_name) of
              Some env_var_value \<Rightarrow> Some (VStr env_var_value)
            | None \<Rightarrow> configurable_of config field_name)"
    using assms
    by (simp add: final_values_for_instantiation_def final_values_loop_lookup split: option.splits)
  fix inst
  assume "from_runnable_config validate environ config = Inr inst"
  then have "\<exists>v. inst field_name = Some v \<and>
               (case final_values_for_instantiation environ config field_name of
                  Some c \<Rightarrow> validate field_name c = Inr v
                | None \<Rightarrow> field_default field_name = Some v)"
    using instantiate_lookup[of validate _ model_fields Map.empty inst field_name] assms
    by (simp add: from_runnable_config_def)
  then show "\<exists>v. inst field_name = Some v \<and>
               (case environ (upper field_name) of
                  Some env_var_value \<Rightarrow> validate field_name (VStr env_var_value) = Inr v
                | None \<Rightarrow>
                    (case configurable_of config field_name of
                       Some c \<Rightarrow> validate field_name c = Inr v
                     | None \<Rightarrow> field_default field_name = Some v))"
    unfolding fv by (auto split: option.splits)
next
  assume "\<forall>f c. \<not> isl (validate f c)"
  then have "\<forall>f \<in> set model_fields.
               case final_values_for_instantiation environ config f of
                 Some c \<Rightarrow> \<not> isl (validate f c)
               | None \<Rightarrow> field_default f \<noteq> None"
    using field_default_total by (auto split: option.splits)
  then show "\<exists>inst. from_runnable_config validate environ config = Inr inst"
    unfolding from_runnable_config_def by (rule instantiate_succeeds)
qed

theorem from_runnable_config_layered_witness:
  "''max_search_depth'' \<in> set model_fields \<and>
   ''number_of_queries'' \<in> set model_fields \<and>
   ''writer_model'' \<in> set model_fields \<and>
   environment (upper ''max_search_depth'') = Some ''3'' \<and>
   configurable_of caller_config ''max_search_depth'' = Some (VInt 5) \<and>
   environment (upper ''number_of_queries'') = None \<and>
   configurable_of caller_config ''number_of_queries'' = Some (VInt 7) \<and>
   environment (upper ''writer_model'') = None \<and>
   configurable_of caller_config ''writer_model'' = None \<and>
   (\<exists>inst. from_runnable_config accept environment caller_config = Inr inst \<and>
      inst ''max_search_depth'' = Some (VStr ''3'') \<and>
      inst ''number_of_queries'' = Some (VInt 7) \<and>
      inst ''writer_model'' = Some (VStr ''gpt-4.1''))"
proof -
  have m: "''max_search_depth'' \<in> set model_fields" "''number_of_queries'' \<in> set model_fields"
    "''writer_model'' \<in> set model_fields"
    by (simp_all add: model_fields_def)
  have e: "environment (upper ''max_search_depth'') = Some ''3''"
    "environment (upper ''number_of_queries'') = None"
    "environment (upper ''writer_model'') = None"
    by (simp_all add: environment_def upper_def upper_char_def)
  have c: "configurable_of caller_config ''max_search_depth'' = Some (VInt 5)"
    "configurable_of caller_config ''number_of_queries'' = Some (VInt 7)"
    "configurable_of caller_config ''writer_model'' = None"
    by (simp_all add: configurable_of_def caller_config_def)
  have d: "field_default ''writer_model'' = Some (VStr ''gpt-4.1'')"
    by (simp add: field_default_def)
  have a: "\<forall>f c. \<not> isl (accept f c)"
    by (simp add: accept_def)
  obtain inst where i: "from_runnable_config accept environment caller_config = Inr inst"
    using from_runnable_config_layered[OF m(1), of environment caller_config accept] a by blast
  have "inst ''max_search_depth'' = Some (VStr ''3'')"
    using from_runnable_config_layered[OF m(1), of environment caller_config accept] i e(1)
    by (auto simp: accept_def)
  moreover have "inst ''number_of_queries'' = Some (VInt 7)"
    using from_runnable_config_layered[OF m(2), of environment caller_config accept] i e(2) c(2)
    by (auto simp: accept_def)
  moreover have "inst ''writer_model'' = Some (VStr ''gpt-4.1'')"
    using from_runnable_config_layered[OF m(3), of environment caller_config accept] i e(3) c(3) d
    by (auto simp: accept_def)
  ultimately show ?thesis
    using m e c i by simp
qed

end
